theory Spec2Isabelle
  imports Main
begin

text \<open>
  A model of \<open>disputils/pagination.py\<close>: the footer formatter
  \<open>EmbedPaginator.formatted_pages\<close>, the reaction-driven session \<open>EmbedPaginator.run\<close> and
  the list chunker \<open>EmbedPaginator.generate_sub_lists\<close>. The definitions come first, the
  properties after them.
\<close>

section \<open>The list chunker: \<open>EmbedPaginator.generate_sub_lists\<close>\<close>

text \<open>
  Python's \<open>xs[:k]\<close> takes the elements before the position \<open>stop\<close>, where a negative
  \<open>k\<close> counts from the end and both ends are clamped to the list: \<open>slice_stop\<close> is that
  position. \<open>del xs[:k]\<close> removes the same elements from the list object.
\<close>

definition slice_stop :: "int \<Rightarrow> nat \<Rightarrow> nat" where
  "slice_stop k n = (if k < 0 then nat (max (int n + k) 0) else min (nat k) n)"

definition slice_to :: "'a list \<Rightarrow> int \<Rightarrow> 'a list" where
  "slice_to xs k = take (slice_stop k (length xs)) xs"

definition del_to :: "'a list \<Rightarrow> int \<Rightarrow> 'a list" where
  "del_to xs k = drop (slice_stop k (length xs)) xs"

text \<open>
  An element of the returned list is either a new list object made by a slice, or the
  caller's own list object \<open>origin_list\<close>, which the function appends without copying it.
  The function returns the caller's list as the call leaves it, next to \<open>sub_lists\<close>.
\<close>

datatype 'a sub_list = Fresh "'a list" | Origin

fun contents :: "'a list \<Rightarrow> 'a sub_list \<Rightarrow> 'a list" where
  "contents origin (Fresh xs) = xs"
| "contents origin Origin = origin"

text \<open>
  The loop \<open>while len(origin_list) > max_len\<close>. It may run forever, so it is a partial
  function: \<open>None\<close> is the loop that never leaves.
\<close>

partial_function (option) chunk_loop ::
  "int \<Rightarrow> 'a list \<Rightarrow> 'a sub_list list \<Rightarrow> ('a list \<times> 'a sub_list list) option" where
  "chunk_loop max_len origin_list sub_lists =
     (if int (length origin_list) > max_len
      then chunk_loop max_len (del_to origin_list max_len)
             (sub_lists @ [Fresh (slice_to origin_list max_len)])
      else Some (origin_list, sub_lists))"

declare chunk_loop.simps [code]

definition generate_sub_lists ::
  "'a list \<Rightarrow> int \<Rightarrow> ('a list \<times> 'a sub_list list) option" where
  "generate_sub_lists origin_list max_len =
     (if int (length origin_list) > max_len
      then (case chunk_loop max_len origin_list [] of
              None \<Rightarrow> None
            | Some (origin_list', sub_lists) \<Rightarrow> Some (origin_list', sub_lists @ [Origin]))
      else Some (origin_list, [Origin]))"

section \<open>Pages and the footer formatter: \<open>EmbedPaginator.formatted_pages\<close>\<close>

text \<open>
  A page is a \<open>discord.Embed\<close> object. The formatter reads and writes its footer only, so
  an embed is its footer text, its footer icon and the rest of its content; \<open>None\<close> is
  \<open>discord.Embed.Empty\<close>. Pages are objects that the caller and the paginator share, and the
  formatter writes to objects: the objects live in a heap, a list indexed by address, and
  a list of pages is a list of addresses, each below the length of the heap. A new object
  takes the next free address.
\<close>

record embed =
  footer_text :: "string option"
  footer_icon_url :: "string option"
  content :: string

type_synonym addr = nat
type_synonym heap = "embed list"

text \<open>
  \<open>Embed.set_footer(text=..., icon_url=...)\<close> of the SDK replaces the whole footer: a
  parameter left out is \<open>Embed.Empty\<close>.
\<close>

definition set_footer :: "string option \<Rightarrow> string option \<Rightarrow> embed \<Rightarrow> embed" where
  "set_footer txt icon e = e\<lparr>footer_text := txt, footer_icon_url := icon\<rparr>"

text \<open>The decimal numeral that an f-string prints for a non-negative integer.\<close>

fun str_nat :: "nat \<Rightarrow> string" where
  "str_nat n =
     (if n < 10 then [''0123456789'' ! n]
      else str_nat (n div 10) @ [''0123456789'' ! (n mod 10)])"

declare str_nat.simps [simp del]

text \<open>The position marker \<open>f"({index+1}/{len(pages)})"\<close>.\<close>

definition marker :: "nat \<Rightarrow> nat \<Rightarrow> string" where
  "marker page_index n = ''('' @ str_nat (page_index + 1) @ ''/'' @ str_nat n @ '')''"

text \<open>
  \<open>copy.deepcopy(self.pages)\<close> makes a new list and one new object for each object of the
  old list: its memo maps an object that it has copied already to that copy, so a page
  that stands twice in the list is copied once and stands twice in the copy.
\<close>

fun deepcopy_pages :: "(addr \<times> addr) list \<Rightarrow> heap \<Rightarrow> addr list \<Rightarrow> heap \<times> addr list" where
  "deepcopy_pages memo h [] = (h, [])"
| "deepcopy_pages memo h (p # ps) =
     (case map_of memo p of
        Some q \<Rightarrow> (case deepcopy_pages memo h ps of (h', qs) \<Rightarrow> (h', q # qs))
      | None \<Rightarrow>
          (case deepcopy_pages ((p, length h) # memo) (h @ [h ! p]) ps of
             (h', qs) \<Rightarrow> (h', length h # qs)))"

definition deepcopy :: "heap \<Rightarrow> addr list \<Rightarrow> heap \<times> addr list" where
  "deepcopy h pages = deepcopy_pages [] h pages"

text \<open>
  \<open>pages.index(page)\<close> is the position of the first element that is the same object as
  \<open>page\<close> or compares equal to it. The equality \<open>embed_eq\<close> of two embeds is the SDK's and
  a parameter here; \<open>no_embed_eq\<close> is the equality of an \<open>Embed\<close> class that defines no
  \<open>__eq__\<close>, where only the same object is equal. The formatter looks for a page that
  stands in the list, so the \<open>ValueError\<close> of a missing element cannot be raised
  (\<open>index_of_less\<close> below); the function gives the length of the list there.
\<close>

fun index_of :: "(embed \<Rightarrow> embed \<Rightarrow> bool) \<Rightarrow> heap \<Rightarrow> addr list \<Rightarrow> addr \<Rightarrow> nat" where
  "index_of embed_eq h [] page = 0"
| "index_of embed_eq h (p # ps) page =
     (if p = page \<or> embed_eq (h ! p) (h ! page) then 0
      else Suc (index_of embed_eq h ps page))"

definition no_embed_eq :: "embed \<Rightarrow> embed \<Rightarrow> bool" where
  "no_embed_eq a b = False"

text \<open>The body of the loop \<open>for page in pages\<close>, on the copied list.\<close>

definition format_page ::
  "(embed \<Rightarrow> embed \<Rightarrow> bool) \<Rightarrow> addr list \<Rightarrow> addr \<Rightarrow> heap \<Rightarrow> heap" where
  "format_page embed_eq pages page h =
     (case footer_text (h ! page) of
        None \<Rightarrow>
          h[page := set_footer
              (Some (marker (index_of embed_eq h pages page) (length pages))) None (h ! page)]
      | Some txt \<Rightarrow>
          (let page_index = index_of embed_eq h pages page in
           case footer_icon_url (h ! page) of
             None \<Rightarrow>
               h[page := set_footer
                   (Some (txt @ '' - '' @ marker page_index (length pages))) None (h ! page)]
           | Some icon \<Rightarrow>
               h[page := set_footer
                   (Some (txt @ '' - '' @ marker page_index (length pages))) (Some icon)
                   (h ! page)]))"

definition formatted_pages ::
  "(embed \<Rightarrow> embed \<Rightarrow> bool) \<Rightarrow> heap \<Rightarrow> addr list \<Rightarrow> heap \<times> addr list" where
  "formatted_pages embed_eq h pages =
     (case deepcopy h pages of
        (h', copies) \<Rightarrow> (fold (format_page embed_eq copies) copies h', copies))"

text \<open>
  The page that the spec describes for position \<open>i\<close> of \<open>n\<close>: the page with the marker
  alone as its footer text when it has no footer text, and with \<open>" - "\<close> and the marker
  appended to its footer text otherwise, the icon kept. A footer with an icon and no text
  falls under the first case, as in the code, and keeps no icon. It is what the body of
  the loop writes when \<open>pages.index(page)\<close> is \<open>i\<close> (\<open>format_page_with_marker\<close> below).
\<close>

definition with_marker :: "embed \<Rightarrow> nat \<Rightarrow> nat \<Rightarrow> embed" where
  "with_marker e i n =
     (case footer_text e of
        None \<Rightarrow> e\<lparr>footer_text := Some (marker i n), footer_icon_url := None\<rparr>
      | Some txt \<Rightarrow> e\<lparr>footer_text := Some (txt @ '' - '' @ marker i n)\<rparr>)"

section \<open>The navigation session: \<open>EmbedPaginator.run\<close>\<close>

text \<open>
  The SDK's objects, as far as \<open>run\<close> reads them: a channel has a type, a message has an
  id and its channel, a reaction has the id of its message and its emoji, and a user is
  the user's id. An emoji is a string. The control emojis are a tuple of five.
\<close>

type_synonym emoji = string
type_synonym user_id = nat
type_synonym controls = "emoji \<times> emoji \<times> emoji \<times> emoji \<times> emoji"

datatype channel_type = TextChannel | DMChannel | GroupChannel

record channel =
  channel_id :: nat
  channel_type :: channel_type

record message =
  message_id :: nat
  message_channel :: channel

record reaction =
  reaction_message_id :: nat
  reaction_emoji :: emoji

text \<open>The paginator object: the attributes that \<open>__init__\<close> and \<open>run\<close> assign.\<close>

record paginator =
  pages :: "addr list"
  message :: "message option"
  control_emojis :: controls
  current_embed :: "addr option"

text \<open>
  The default controls, as the UTF-8 bytes of the five symbols U+23EE, U+25C0, U+25B6,
  U+23ED and U+23F9.
\<close>

definition default_control_emojis :: controls where
  "default_control_emojis =
     ([CHR 0xE2, CHR 0x8F, CHR 0xAE], [CHR 0xE2, CHR 0x97, CHR 0x80],
      [CHR 0xE2, CHR 0x96, CHR 0xB6], [CHR 0xE2, CHR 0x8F, CHR 0xAD],
      [CHR 0xE2, CHR 0x8F, CHR 0xB9])"

definition init :: "addr list \<Rightarrow> message option \<Rightarrow> controls option \<Rightarrow> paginator" where
  "init pages_arg message_arg control_emojis_arg =
     \<lparr>pages = pages_arg, message = message_arg,
      control_emojis =
        (case control_emojis_arg of None \<Rightarrow> default_control_emojis | Some ce \<Rightarrow> ce),
      current_embed = None\<rparr>"

text \<open>
  What the session does to the platform is the list of the SDK calls it makes, in order.
  The SDK calls are taken to succeed; \<open>run\<close> swallows a \<open>discord.Forbidden\<close> of
  \<open>remove_reaction\<close> and \<open>clear_reactions\<close>, so that failure changes nothing here.
\<close>

datatype action =
  Send channel embed
| AddReaction nat emoji
| Edit nat embed
| RemoveReaction nat reaction user_id
| ClearReactions nat
| DeleteMessage nat

datatype error = TypeError | IndexError

text \<open>
  What the session waits for: a reaction that a user adds, or the expiry of the timeout
  of the pending \<open>wait_for\<close>. The session is \<open>Active\<close> with its current page index while it
  waits, \<open>Closed\<close> when \<open>run\<close> has returned, and \<open>Failed\<close> when \<open>run\<close> has raised.
\<close>

datatype event = ReactionAdd reaction user_id | TimeoutExpired

datatype session = Active int | Closed | Failed error

record run_result =
  actions :: "action list"
  paginator_after :: paginator
  heap_after :: heap
  outcome :: session

text \<open>
  The start of \<open>run\<close>: the channel is the argument, or the channel of the message that
  the paginator holds, and a \<open>TypeError\<close> without both.
\<close>

definition resolve_channel :: "paginator \<Rightarrow> channel option \<Rightarrow> error + channel" where
  "resolve_channel self channel_arg =
     (if channel_arg = None \<and> message self \<noteq> None
      then Inr (message_channel (the (message self)))
      else if channel_arg = None then Inl TypeError
      else Inr (the channel_arg))"

text \<open>Python's \<open>xs[i]\<close>: a negative index counts from the end, an index out of range raises.\<close>

definition py_index :: "'a list \<Rightarrow> int \<Rightarrow> 'a option" where
  "py_index xs i =
     (if 0 \<le> i \<and> i < int (length xs) then Some (xs ! nat i)
      else if - int (length xs) \<le> i \<and> i < 0 then Some (xs ! nat (int (length xs) + i))
      else None)"

fun emoji_list :: "controls \<Rightarrow> emoji list" where
  "emoji_list (e0, e1, e2, e3, e4) = [e0, e1, e2, e3, e4]"

text \<open>The predicate \<open>check\<close> that \<open>run\<close> hands to \<open>wait_for\<close>; \<open>live\<close> is \<open>self.message\<close>.\<close>

definition check :: "paginator \<Rightarrow> message \<Rightarrow> user_id list \<Rightarrow> reaction \<Rightarrow> user_id \<Rightarrow> bool" where
  "check self live users r u =
     (let res = (reaction_message_id r = message_id live \<and>
                 reaction_emoji r \<in> set (emoji_list (control_emojis self)))
      in if length users > 0 then res \<and> u \<in> set users else res)"

text \<open>
  The chain of comparisons of the emoji with \<open>control_emojis[0]\<close> to \<open>control_emojis[3]\<close>:
  the page index to load, or \<open>None\<close> in the last branch, which deletes the message.
\<close>

fun load_page_index :: "controls \<Rightarrow> emoji \<Rightarrow> int \<Rightarrow> int \<Rightarrow> int option" where
  "load_page_index (e0, e1, e2, e3, e4) emoji current_page_index max_index =
     (if emoji = e0 then Some 0
      else if emoji = e1 then
        Some (if current_page_index > 0 then current_page_index - 1 else current_page_index)
      else if emoji = e2 then
        Some (if current_page_index < max_index then current_page_index + 1
              else current_page_index)
      else if emoji = e3 then Some max_index
      else None)"

definition reaction_removable :: "channel \<Rightarrow> bool" where
  "reaction_removable ch = (channel_type ch \<noteq> DMChannel \<and> channel_type ch \<noteq> GroupChannel)"

text \<open>The body of the loop \<open>while True\<close> after \<open>wait_for\<close> has returned a reaction.\<close>

definition turn_page ::
  "(embed \<Rightarrow> embed \<Rightarrow> bool) \<Rightarrow> paginator \<Rightarrow> channel \<Rightarrow> message \<Rightarrow> heap \<Rightarrow> int \<Rightarrow>
   reaction \<Rightarrow> user_id \<Rightarrow> action list \<times> heap \<times> session" where
  "turn_page embed_eq self ch live h current_page_index r u =
     (let max_index = int (length (pages self)) - 1 in
      case load_page_index (control_emojis self) (reaction_emoji r) current_page_index
             max_index of
        None \<Rightarrow> ([DeleteMessage (message_id live)], h, Closed)
      | Some load \<Rightarrow>
          (case formatted_pages embed_eq h (pages self) of
             (h', formatted) \<Rightarrow>
               (case py_index formatted load of
                  None \<Rightarrow> ([], h', Failed IndexError)
                | Some page \<Rightarrow>
                    (Edit (message_id live) (h' ! page) #
                       (if reaction_removable ch then [RemoveReaction (message_id live) r u]
                        else []),
                     h', Active load))))"

text \<open>
  One event at the pending \<open>wait_for\<close>. A reaction that \<open>check\<close> refuses is not returned:
  the wait goes on. The expiry of the timeout raises \<open>asyncio.TimeoutError\<close>, which \<open>run\<close>
  catches.
\<close>

definition on_event ::
  "(embed \<Rightarrow> embed \<Rightarrow> bool) \<Rightarrow> paginator \<Rightarrow> user_id list \<Rightarrow> channel \<Rightarrow> message \<Rightarrow> heap \<Rightarrow>
   int \<Rightarrow> event \<Rightarrow> action list \<times> heap \<times> session" where
  "on_event embed_eq self users ch live h current_page_index ev =
     (case ev of
        TimeoutExpired \<Rightarrow>
          ((if reaction_removable ch then [ClearReactions (message_id live)] else []),
           h, Closed)
      | ReactionAdd r u \<Rightarrow>
          if check self live users r u
          then turn_page embed_eq self ch live h current_page_index r u
          else ([], h, Active current_page_index))"

text \<open>
  The loop \<open>while True\<close> over the events that arrive while the session waits. With no
  event left the session is still waiting.
\<close>

fun run_loop ::
  "(embed \<Rightarrow> embed \<Rightarrow> bool) \<Rightarrow> paginator \<Rightarrow> user_id list \<Rightarrow> channel \<Rightarrow> message \<Rightarrow> heap \<Rightarrow>
   int \<Rightarrow> event list \<Rightarrow> action list \<times> heap \<times> session" where
  "run_loop embed_eq self users ch live h current_page_index [] =
     ([], h, Active current_page_index)"
| "run_loop embed_eq self users ch live h current_page_index (ev # evs) =
     (case on_event embed_eq self users ch live h current_page_index ev of
        (acts, h', s) \<Rightarrow>
          (case s of
             Active load \<Rightarrow>
               (case run_loop embed_eq self users ch live h' load evs of
                  (acts', h'', s') \<Rightarrow> (acts @ acts', h'', s'))
           | Closed \<Rightarrow> (acts, h', Closed)
           | Failed e \<Rightarrow> (acts, h', Failed e)))"

text \<open>
  \<open>run(users, channel)\<close>. \<open>new_id\<close> is the id that the platform gives to the message that
  \<open>channel.send\<close> returns, and \<open>events\<close> are the events at the session's \<open>wait_for\<close> calls.
\<close>

definition run ::
  "(embed \<Rightarrow> embed \<Rightarrow> bool) \<Rightarrow> nat \<Rightarrow> paginator \<Rightarrow> heap \<Rightarrow> user_id list \<Rightarrow> channel option \<Rightarrow>
   event list \<Rightarrow> run_result" where
  "run embed_eq new_id self h users channel_arg events =
     (case resolve_channel self channel_arg of
        Inl e \<Rightarrow> \<lparr>actions = [], paginator_after = self, heap_after = h, outcome = Failed e\<rparr>
      | Inr ch \<Rightarrow>
          (case pages self of
             [] \<Rightarrow>
               \<lparr>actions = [], paginator_after = self, heap_after = h,
                outcome = Failed IndexError\<rparr>
           | p0 # ps \<Rightarrow>
               (let self1 = self\<lparr>current_embed := Some p0\<rparr>;
                    live = \<lparr>message_id = new_id, message_channel = ch\<rparr>
                in if length (pages self1) = 1
                   then \<lparr>actions = [Send ch (h ! p0)],
                         paginator_after = self1\<lparr>message := Some live\<rparr>,
                         heap_after = h, outcome = Closed\<rparr>
                   else
                     (case formatted_pages embed_eq h (pages self1) of
                        (h1, formatted) \<Rightarrow>
                          (case py_index formatted 0 of
                             None \<Rightarrow>
                               \<lparr>actions = [], paginator_after = self1, heap_after = h1,
                                outcome = Failed IndexError\<rparr>
                           | Some page \<Rightarrow>
                               (let self2 = self1\<lparr>message := Some live\<rparr> in
                                case run_loop embed_eq self2 users ch live h1 0 events of
                                  (acts, h2, s) \<Rightarrow>
                                    \<lparr>actions =
                                       Send ch (h1 ! page) #
                                       map (AddReaction (message_id live))
                                         (emoji_list (control_emojis self2)) @ acts,
                                     paginator_after = self2, heap_after = h2,
                                     outcome = s\<rparr>))))))"

section \<open>Example data\<close>

text \<open>Two pages and a text channel, for the concrete runs below.\<close>

definition page_a :: embed where
  "page_a = \<lparr>footer_text = None, footer_icon_url = None, content = ''A''\<rparr>"

definition page_b :: embed where
  "page_b = \<lparr>footer_text = Some ''B'', footer_icon_url = Some ''icon'', content = ''B''\<rparr>"

definition lobby :: channel where
  "lobby = \<lparr>channel_id = 1, channel_type = TextChannel\<rparr>"

section \<open>Properties\<close>

subsection \<open>The formatter leaves the caller's objects alone\<close>

lemma deepcopy_pages_frame:
  "deepcopy_pages memo h ps = (h', qs) \<Longrightarrow>
   length qs = length ps \<and> length h \<le> length h' \<and> take (length h) h' = h \<and>
   (\<forall>q \<in> set qs. q \<in> snd ` set memo \<or> (length h \<le> q \<and> q < length h'))"
proof (induction ps arbitrary: memo h h' qs)
  case Nil
  then show ?case by simp
next
  case (Cons p ps)
  show ?case
  proof (cases "map_of memo p")
    case (Some q)
    with Cons.prems obtain qs' where
      r: "deepcopy_pages memo h ps = (h', qs')" and q: "qs = q # qs'"
      by (auto split: prod.splits)
    from Some have "q \<in> snd ` set memo"
      by (metis map_of_SomeD snd_conv image_eqI)
    with Cons.IH [OF r] q show ?thesis by simp
  next
    case None
    with Cons.prems obtain qs' where
      r: "deepcopy_pages ((p, length h) # memo) (h @ [h ! p]) ps = (h', qs')"
      and q: "qs = length h # qs'"
      by (auto split: prod.splits)
    from Cons.IH [OF r] have
      l: "length qs' = length ps" and g: "length (h @ [h ! p]) \<le> length h'"
      and t: "take (length (h @ [h ! p])) h' = h @ [h ! p]"
      and a: "\<forall>q \<in> set qs'. q \<in> snd ` set ((p, length h) # memo) \<or>
                (length (h @ [h ! p]) \<le> q \<and> q < length h')"
      by simp_all
    from t have "take (length h) (take (length (h @ [h ! p])) h') = take (length h) (h @ [h ! p])"
      by simp
    then have t': "take (length h) h' = h"
      by (simp add: min_def)
    from a g have "\<forall>q \<in> set qs'. q \<in> snd ` set memo \<or> (length h \<le> q \<and> q < length h')"
      by auto
    with l g t' q show ?thesis by auto
  qed
qed

lemma length_format_page: "length (format_page eq ps page h) = length h"
  by (simp add: format_page_def Let_def split: option.splits)

lemma take_format_page: "n \<le> page \<Longrightarrow> take n (format_page eq ps page h) = take n h"
  by (simp add: format_page_def Let_def split: option.splits)

lemma fold_format_page_frame:
  "\<forall>q \<in> set qs. n \<le> q \<Longrightarrow>
   length (fold (format_page eq ps) qs h) = length h \<and>
   take n (fold (format_page eq ps) qs h) = take n h"
  by (induction qs arbitrary: h) (simp_all add: length_format_page take_format_page)

lemma formatted_pages_frame_aux:
  assumes "formatted_pages eq h ps = (h', out)"
  shows "length out = length ps \<and> take (length h) h' = h \<and>
         (\<forall>q \<in> set out. length h \<le> q \<and> q < length h')"
proof -
  from assms obtain h1 where
    d: "deepcopy_pages [] h ps = (h1, out)"
    and f: "h' = fold (format_page eq out) out h1"
    by (auto simp: formatted_pages_def deepcopy_def split: prod.splits)
  from deepcopy_pages_frame [OF d] have
    l: "length out = length ps" and t: "take (length h) h1 = h"
    and a: "\<forall>q \<in> set out. length h \<le> q \<and> q < length h1"
    by simp_all
  from a have "\<forall>q \<in> set out. length h \<le> q" by simp
  from fold_format_page_frame [OF this, of eq out h1] f t have
    "length h' = length h1" and "take (length h) h' = h"
    by simp_all
  with l a show ?thesis by simp
qed

lemma length_formatted_pages:
  "length (snd (formatted_pages eq h ps)) = length ps"
  using formatted_pages_frame_aux [of eq h ps] by (cases "formatted_pages eq h ps") simp

subsection \<open>The page index stays in range\<close>

lemma load_page_index_range:
  assumes "0 \<le> i" and "i \<le> last_index"
    and "load_page_index ce emoji i last_index = Some j"
  shows "0 \<le> j \<and> j \<le> last_index"
proof -
  obtain e0 e1 e2 e3 e4 where "ce = (e0, e1, e2, e3, e4)"
    by (cases ce) auto
  with assms show ?thesis
    by (auto split: if_splits)
qed

lemma py_index_Some:
  "0 \<le> i \<Longrightarrow> i < int (length xs) \<Longrightarrow> py_index xs i = Some (xs ! nat i)"
  by (simp add: py_index_def)

lemma turn_page_cases:
  assumes "0 \<le> i" and "i \<le> int (length (pages self)) - 1"
  shows "(load_page_index (control_emojis self) (reaction_emoji r) i
            (int (length (pages self)) - 1) = None \<and>
          turn_page eq self ch live h i r u = ([DeleteMessage (message_id live)], h, Closed)) \<or>
         (\<exists>j acts h'. load_page_index (control_emojis self) (reaction_emoji r) i
            (int (length (pages self)) - 1) = Some j \<and> 0 \<le> j \<and>
            j \<le> int (length (pages self)) - 1 \<and>
            turn_page eq self ch live h i r u = (acts, h', Active j))"
proof (cases "load_page_index (control_emojis self) (reaction_emoji r) i
            (int (length (pages self)) - 1)")
  case None
  then show ?thesis by (simp add: turn_page_def)
next
  case (Some j)
  from load_page_index_range [OF assms Some] have j: "0 \<le> j" "j \<le> int (length (pages self)) - 1"
    by simp_all
  obtain h' fp where f: "formatted_pages eq h (pages self) = (h', fp)"
    by (cases "formatted_pages eq h (pages self)")
  with length_formatted_pages [of eq h "pages self"] have "length fp = length (pages self)"
    by simp
  with j have "py_index fp j = Some (fp ! nat j)"
    by (simp add: py_index_Some)
  with Some f j show ?thesis
    by (simp add: turn_page_def)
qed

lemma on_event_not_failed:
  assumes "0 \<le> i" and "i \<le> int (length (pages self)) - 1"
    and "on_event eq self users ch live h i ev = (acts, h', s)"
  shows "s = Closed \<or> (\<exists>j. s = Active j \<and> 0 \<le> j \<and> j \<le> int (length (pages self)) - 1)"
proof (cases ev)
  case TimeoutExpired
  with assms(3) show ?thesis by (simp add: on_event_def)
next
  case (ReactionAdd r u)
  show ?thesis
  proof (cases "check self live users r u")
    case True
    with ReactionAdd assms(3) have "turn_page eq self ch live h i r u = (acts, h', s)"
      by (simp add: on_event_def)
    with turn_page_cases [OF assms(1,2), of r eq ch live h u] show ?thesis
      by auto
  next
    case False
    with ReactionAdd assms show ?thesis by (auto simp: on_event_def)
  qed
qed

lemma run_loop_not_failed:
  assumes "0 \<le> i" and "i \<le> int (length (pages self)) - 1"
    and "run_loop eq self users ch live h i evs = (acts, h', s)"
  shows "s = Closed \<or> (\<exists>j. s = Active j \<and> 0 \<le> j \<and> j \<le> int (length (pages self)) - 1)"
  using assms
proof (induction evs arbitrary: i h acts h' s)
  case Nil
  then show ?case by auto
next
  case (Cons ev evs)
  obtain a1 h1 s1 where e: "on_event eq self users ch live h i ev = (a1, h1, s1)"
    by (cases "on_event eq self users ch live h i ev") auto
  from on_event_not_failed [OF Cons.prems(1,2) e] show ?case
  proof
    assume "s1 = Closed"
    with e Cons.prems(3) show ?thesis by simp
  next
    assume "\<exists>j. s1 = Active j \<and> 0 \<le> j \<and> j \<le> int (length (pages self)) - 1"
    then obtain j where j: "s1 = Active j" "0 \<le> j" "j \<le> int (length (pages self)) - 1"
      by blast
    obtain a2 h2 s2 where r: "run_loop eq self users ch live h1 j evs = (a2, h2, s2)"
      by (cases "run_loop eq self users ch live h1 j evs") auto
    from e j r Cons.prems(3) have "s = s2" by simp
    with Cons.IH [OF j(2,3) r] show ?thesis by simp
  qed
qed

lemmas run_eval =
  run_def init_def resolve_channel_def formatted_pages_def deepcopy_def format_page_def
  set_footer_def marker_def str_nat.simps py_index_def on_event_def check_def turn_page_def
  default_control_emojis_def reaction_removable_def page_a_def page_b_def lobby_def
  no_embed_eq_def

subsection \<open>Properties of the chunker\<close>

lemma slice_del_append: "slice_to xs k @ del_to xs k = xs"
  by (simp add: slice_to_def del_to_def)

lemma length_slice_to_pos:
  "1 \<le> k \<Longrightarrow> k < int (length xs) \<Longrightarrow> int (length (slice_to xs k)) = k"
  by (simp add: slice_to_def slice_stop_def)

lemma length_del_to_pos:
  "1 \<le> k \<Longrightarrow> k < int (length xs) \<Longrightarrow> length (del_to xs k) < length xs"
  by (simp add: del_to_def slice_stop_def)

lemma chunk_loop_returns:
  "1 \<le> k \<Longrightarrow>
   \<exists>rest cs. chunk_loop k xs subs = Some (rest, subs @ map Fresh cs) \<and>
     concat cs @ rest = xs \<and> (\<forall>c \<in> set cs. int (length c) = k) \<and>
     int (length rest) \<le> k \<and> (k < int (length xs) \<longrightarrow> cs \<noteq> [])"
proof (induction xs arbitrary: subs rule: length_induct)
  case (1 xs)
  show ?case
  proof (cases "k < int (length xs)")
    case False
    then have "chunk_loop k xs subs = Some (xs, subs @ map Fresh [])"
      by (subst chunk_loop.simps) simp
    with False show ?thesis by fastforce
  next
    case True
    let ?c = "slice_to xs k" and ?d = "del_to xs k"
    from 1(2) True have "length ?d < length xs" by (rule length_del_to_pos)
    with 1 obtain rest cs where
      r: "chunk_loop k ?d (subs @ [Fresh ?c]) = Some (rest, (subs @ [Fresh ?c]) @ map Fresh cs)"
      and c: "concat cs @ rest = ?d" and l: "\<forall>c \<in> set cs. int (length c) = k"
      and b: "int (length rest) \<le> k"
      by blast
    from True r have "chunk_loop k xs subs = Some (rest, subs @ map Fresh (?c # cs))"
      by (subst chunk_loop.simps) simp
    moreover from c have "concat (?c # cs) @ rest = xs"
      by (simp add: slice_del_append)
    moreover from l 1(2) True have "\<forall>c \<in> set (?c # cs). int (length c) = k"
      by (simp add: length_slice_to_pos)
    ultimately show ?thesis using b by blast
  qed
qed

lemma length_del_to_nonpos:
  "k \<le> 0 \<Longrightarrow> k < int (length xs) \<Longrightarrow> k < int (length (del_to xs k))"
  by (auto simp: del_to_def slice_stop_def)

lemma chunk_loop_diverges:
  assumes "k \<le> 0" and "k < int (length xs)"
  shows "chunk_loop k xs subs = None"
proof (rule ccontr)
  assume "chunk_loop k xs subs \<noteq> None"
  then obtain r where ret: "chunk_loop k xs subs = Some r" by blast
  have "\<not> (k \<le> 0 \<and> k < int (length xs))"
  proof (rule chunk_loop.raw_induct
      [where P = "\<lambda>m ys acc r. \<not> (m \<le> 0 \<and> m < int (length ys))", OF _ ret])
    fix loop :: "int \<Rightarrow> 'a list \<Rightarrow> 'a sub_list list \<Rightarrow> ('a list \<times> 'a sub_list list) option"
    fix m ys acc r
    assume ih: "\<And>a b c y. loop a b c = Some y \<Longrightarrow> \<not> (a \<le> 0 \<and> a < int (length b))"
    assume step: "(if m < int (length ys)
        then loop m (del_to ys m) (acc @ [Fresh (slice_to ys m)])
        else Some (ys, acc)) = Some r"
    show "\<not> (m \<le> 0 \<and> m < int (length ys))"
    proof
      assume a: "m \<le> 0 \<and> m < int (length ys)"
      with step have "loop m (del_to ys m) (acc @ [Fresh (slice_to ys m)]) = Some r"
        by simp
      then have "\<not> (m \<le> 0 \<and> m < int (length (del_to ys m)))"
        by (rule ih)
      moreover from a have "m < int (length (del_to ys m))"
        by (simp add: length_del_to_nonpos)
      ultimately show False using a by simp
    qed
  qed
  with assms show False by simp
qed


lemma generate_sub_lists_returns:
  assumes "1 \<le> k"
  shows "\<exists>rest cs. generate_sub_lists xs k = Some (rest, map Fresh cs @ [Origin]) \<and>
     concat cs @ rest = xs \<and> (\<forall>c \<in> set cs. int (length c) = k) \<and>
     int (length rest) \<le> k \<and> (k < int (length xs) \<longrightarrow> cs \<noteq> [])"
proof (cases "k < int (length xs)")
  case True
  from chunk_loop_returns [OF assms, of xs "[]"] obtain rest cs where
    "chunk_loop k xs [] = Some (rest, map Fresh cs)" and "concat cs @ rest = xs"
    and "\<forall>c \<in> set cs. int (length c) = k" and "int (length rest) \<le> k"
    and "k < int (length xs) \<longrightarrow> cs \<noteq> []"
    by auto
  with True show ?thesis
    by (auto simp: generate_sub_lists_def)
next
  case False
  then have "generate_sub_lists xs k = Some (xs, map Fresh [] @ [Origin])"
    by (simp add: generate_sub_lists_def)
  with False show ?thesis by fastforce
qed

lemma generate_sub_lists_short:
  "int (length xs) \<le> k \<Longrightarrow> generate_sub_lists xs k = Some (xs, [Origin])"
  by (simp add: generate_sub_lists_def)

lemma generate_sub_lists_diverges:
  "k \<le> 0 \<Longrightarrow> k < int (length xs) \<Longrightarrow> generate_sub_lists xs k = None"
  by (simp add: generate_sub_lists_def chunk_loop_diverges)

text \<open>
  Claim C2, as the code has it: for every chunk size \<open>k \<ge> 1\<close>, and whenever the list is
  no longer than \<open>k\<close>, \<open>generate_sub_lists(items, k)\<close> returns; the sublists it returns,
  read when it returns and concatenated in order, are the items it was given; every one
  of them has at most \<open>k\<close> elements; and for a list no longer than \<open>k\<close> the result is the
  list with the one element \<open>items\<close>.
\<close>

theorem generate_sub_lists_chunks:
  assumes "1 \<le> k \<or> int (length items) \<le> k"
  shows "\<exists>origin' subs. generate_sub_lists items k = Some (origin', subs) \<and>
     concat (map (contents origin') subs) = items \<and>
     (\<forall>s \<in> set subs. int (length (contents origin' s)) \<le> k) \<and>
     (int (length items) \<le> k \<longrightarrow> origin' = items \<and> subs = [Origin])"
proof (cases "int (length items) \<le> k")
  case True
  then show ?thesis
    by (simp add: generate_sub_lists_short)
next
  case False
  with assms have "1 \<le> k" by simp
  from generate_sub_lists_returns [OF this, of items] obtain rest cs where
    r: "generate_sub_lists items k = Some (rest, map Fresh cs @ [Origin])"
    and c: "concat cs @ rest = items" and l: "\<forall>c \<in> set cs. int (length c) = k"
    and b: "int (length rest) \<le> k"
    by blast
  have m: "map (contents rest) (map Fresh cs) = cs"
    by (induction cs) simp_all
  from c m have "concat (map (contents rest) (map Fresh cs @ [Origin])) = items"
    by simp
  moreover from l b have
    "\<forall>s \<in> set (map Fresh cs @ [Origin]). int (length (contents rest s)) \<le> k"
    by auto
  ultimately show ?thesis using r False by simp
qed

theorem generate_sub_lists_chunks_witness:
  "(1 \<le> (2::int) \<or> int (length [1, 2, 3, 4, 5 :: nat]) \<le> 2) \<and>
   generate_sub_lists [1, 2, 3, 4, 5 :: nat] 2 = Some ([5], [Fresh [1, 2], Fresh [3, 4], Origin]) \<and>
   concat (map (contents [5]) [Fresh [1, 2], Fresh [3, 4], Origin]) = [1, 2, 3, 4, 5 :: nat]"
  using generate_sub_lists_chunks [of 2 "[1, 2, 3, 4, 5 :: nat]"]
  by (simp add: generate_sub_lists_def chunk_loop.simps del_to_def slice_to_def slice_stop_def)

text \<open>
  The claim as the spec states it, for every chunk size, fails at the chunk size 0 and a
  list of one element: the loop removes nothing and the call never returns.
\<close>

theorem generate_sub_lists_zero_counterexample:
  "generate_sub_lists [0 :: nat] 0 = None"
  by (rule generate_sub_lists_diverges) simp_all

subsection \<open>Properties of the session\<close>

text \<open>
  A turn of a page moves the session to the index that the chain of comparisons gives:
  the loop body ends \<open>Active\<close> at that index, and the loop goes on from there.
\<close>

lemma turn_page_moves:
  assumes "0 \<le> i" and "i \<le> int (length (pages self)) - 1"
    and "load_page_index (control_emojis self) (reaction_emoji r) i
           (int (length (pages self)) - 1) = Some j"
  shows "\<exists>acts h'. turn_page embed_eq self ch live h i r u = (acts, h', Active j) \<and>
     (check self live users r u \<longrightarrow>
        on_event embed_eq self users ch live h i (ReactionAdd r u) = (acts, h', Active j) \<and>
        run_loop embed_eq self users ch live h i (ReactionAdd r u # evs) =
          (case run_loop embed_eq self users ch live h' j evs of
             (acts', h'', s) \<Rightarrow> (acts @ acts', h'', s)))"
proof -
  from turn_page_cases [OF assms(1,2), of r embed_eq ch live h u] assms(3)
  obtain acts h' where t: "turn_page embed_eq self ch live h i r u = (acts, h', Active j)"
    by auto
  have "on_event embed_eq self users ch live h i (ReactionAdd r u) = (acts, h', Active j) \<and>
        run_loop embed_eq self users ch live h i (ReactionAdd r u # evs) =
          (case run_loop embed_eq self users ch live h' j evs of
             (acts', h'', s) \<Rightarrow> (acts @ acts', h'', s))"
    if "check self live users r u"
    using that t by (simp add: on_event_def)
  with t show ?thesis by blast
qed

text \<open>
  Claim C3: with the current index between 0 and the last index, the transition clamps
  at both ends. The emoji of the first control gives index 0; the emoji of \<open>previous\<close>
  gives 0 at index 0 and the index before otherwise; the emoji of \<open>next\<close> gives the last
  index at the last index and the index after otherwise; the emoji of \<open>last\<close> gives the
  last index. An emoji counts as a control when no earlier comparison of the chain has
  matched it, which is always so when the five control emojis differ. Whatever index the
  chain gives is between 0 and the last index. The session takes that index: the body of
  the loop ends \<open>Active\<close> at it, an accepted reaction leaves the session \<open>Active\<close> at it, and
  the loop goes on from it; so the current index stays between 0 and the last index
  after every turn of a page.
\<close>

theorem navigation_clamps:
  assumes "0 \<le> i" and "i \<le> last_index"
  shows
   "(emoji = e0 \<longrightarrow> load_page_index (e0, e1, e2, e3, e4) emoji i last_index = Some 0) \<and>
    (emoji \<noteq> e0 \<and> emoji = e1 \<longrightarrow>
       load_page_index (e0, e1, e2, e3, e4) emoji i last_index =
         Some (if i = 0 then 0 else i - 1)) \<and>
    (emoji \<notin> {e0, e1} \<and> emoji = e2 \<longrightarrow>
       load_page_index (e0, e1, e2, e3, e4) emoji i last_index =
         Some (if i = last_index then last_index else i + 1)) \<and>
    (emoji \<notin> {e0, e1, e2} \<and> emoji = e3 \<longrightarrow>
       load_page_index (e0, e1, e2, e3, e4) emoji i last_index = Some last_index) \<and>
    (\<forall>j. load_page_index (e0, e1, e2, e3, e4) emoji i last_index = Some j \<longrightarrow>
       0 \<le> j \<and> j \<le> last_index) \<and>
    (\<forall>self embed_eq ch live h r u acts h' j.
       last_index = int (length (pages self)) - 1 \<and>
       turn_page embed_eq self ch live h i r u = (acts, h', Active j) \<longrightarrow>
       0 \<le> j \<and> j \<le> last_index) \<and>
    (\<forall>self embed_eq users ch live h r u evs j.
       last_index = int (length (pages self)) - 1 \<and>
       control_emojis self = (e0, e1, e2, e3, e4) \<and> reaction_emoji r = emoji \<and>
       load_page_index (e0, e1, e2, e3, e4) emoji i last_index = Some j \<longrightarrow>
       (\<exists>acts h'.
          turn_page embed_eq self ch live h i r u = (acts, h', Active j) \<and>
          (check self live users r u \<longrightarrow>
             on_event embed_eq self users ch live h i (ReactionAdd r u) =
               (acts, h', Active j) \<and>
             run_loop embed_eq self users ch live h i (ReactionAdd r u # evs) =
               (case run_loop embed_eq self users ch live h' j evs of
                  (acts', h'', s) \<Rightarrow> (acts @ acts', h'', s)))))"
proof -
  have range: "\<And>self embed_eq ch live h r u acts h' j.
       last_index = int (length (pages self)) - 1 \<Longrightarrow>
       turn_page embed_eq self ch live h i r u = (acts, h', Active j) \<Longrightarrow>
       0 \<le> j \<and> j \<le> last_index"
  proof -
    fix self :: paginator and embed_eq ch live h r u acts h' j
    assume l: "last_index = int (length (pages self)) - 1"
      and t: "turn_page embed_eq self ch live h i r u = (acts, h', Active j)"
    from assms l have "i \<le> int (length (pages self)) - 1" by simp
    from turn_page_cases [OF assms(1) this, of r embed_eq ch live h u] t l
    show "0 \<le> j \<and> j \<le> last_index" by auto
  qed
  have moves: "\<exists>acts h'.
          turn_page embed_eq self ch live h i r u = (acts, h', Active j) \<and>
          (check self live users r u \<longrightarrow>
             on_event embed_eq self users ch live h i (ReactionAdd r u) =
               (acts, h', Active j) \<and>
             run_loop embed_eq self users ch live h i (ReactionAdd r u # evs) =
               (case run_loop embed_eq self users ch live h' j evs of
                  (acts', h'', s) \<Rightarrow> (acts @ acts', h'', s)))"
    if "last_index = int (length (pages self)) - 1 \<and>
       control_emojis self = (e0, e1, e2, e3, e4) \<and> reaction_emoji r = emoji \<and>
       load_page_index (e0, e1, e2, e3, e4) emoji i last_index = Some j"
    for self :: paginator and embed_eq users ch live h r u evs j
  proof -
    from that have l: "last_index = int (length (pages self)) - 1"
      and c: "control_emojis self = (e0, e1, e2, e3, e4)" and e: "reaction_emoji r = emoji"
      and s: "load_page_index (e0, e1, e2, e3, e4) emoji i last_index = Some j"
      by blast+
    from l assms have b: "i \<le> int (length (pages self)) - 1" by simp
    have "load_page_index (control_emojis self) (reaction_emoji r) i
           (int (length (pages self)) - 1) = Some j"
      unfolding c e l [symmetric] by (rule s)
    from turn_page_moves [OF assms(1) b this] show ?thesis .
  qed
  have c1: "emoji = e0 \<longrightarrow> load_page_index (e0, e1, e2, e3, e4) emoji i last_index = Some 0"
    by simp
  from assms have c2: "emoji \<noteq> e0 \<and> emoji = e1 \<longrightarrow>
       load_page_index (e0, e1, e2, e3, e4) emoji i last_index =
         Some (if i = 0 then 0 else i - 1)"
    by auto
  from assms have c3: "emoji \<notin> {e0, e1} \<and> emoji = e2 \<longrightarrow>
       load_page_index (e0, e1, e2, e3, e4) emoji i last_index =
         Some (if i = last_index then last_index else i + 1)"
    by auto
  have c4: "emoji \<notin> {e0, e1, e2} \<and> emoji = e3 \<longrightarrow>
       load_page_index (e0, e1, e2, e3, e4) emoji i last_index = Some last_index"
    by auto
  have c5: "\<forall>j. load_page_index (e0, e1, e2, e3, e4) emoji i last_index = Some j \<longrightarrow>
       0 \<le> j \<and> j \<le> last_index"
    using load_page_index_range [OF assms] by blast
  have c6: "\<forall>self embed_eq ch live h r u acts h' j.
       last_index = int (length (pages self)) - 1 \<and>
       turn_page embed_eq self ch live h i r u = (acts, h', Active j) \<longrightarrow>
       0 \<le> j \<and> j \<le> last_index"
    using range by blast
  have c7: "\<forall>self embed_eq users ch live h r u evs j.
       last_index = int (length (pages self)) - 1 \<and>
       control_emojis self = (e0, e1, e2, e3, e4) \<and> reaction_emoji r = emoji \<and>
       load_page_index (e0, e1, e2, e3, e4) emoji i last_index = Some j \<longrightarrow>
       (\<exists>acts h'.
          turn_page embed_eq self ch live h i r u = (acts, h', Active j) \<and>
          (check self live users r u \<longrightarrow>
             on_event embed_eq self users ch live h i (ReactionAdd r u) =
               (acts, h', Active j) \<and>
             run_loop embed_eq self users ch live h i (ReactionAdd r u # evs) =
               (case run_loop embed_eq self users ch live h' j evs of
                  (acts', h'', s) \<Rightarrow> (acts @ acts', h'', s))))"
    by (intro allI impI) (rule moves)
  show ?thesis
    by (intro conjI) (rule c1 c2 c3 c4 c5 c6 c7)+
qed


theorem navigation_clamps_witness:
  "load_page_index (''a'', ''b'', ''c'', ''d'', ''e'') ''b'' 0 2 = Some 0 \<and>
   load_page_index (''a'', ''b'', ''c'', ''d'', ''e'') ''b'' 2 2 = Some 1 \<and>
   load_page_index (''a'', ''b'', ''c'', ''d'', ''e'') ''c'' 2 2 = Some 2 \<and>
   load_page_index (''a'', ''b'', ''c'', ''d'', ''e'') ''c'' 1 2 = Some 2 \<and>
   load_page_index (''a'', ''b'', ''c'', ''d'', ''e'') ''a'' 1 2 = Some 0 \<and>
   load_page_index (''a'', ''b'', ''c'', ''d'', ''e'') ''d'' 1 2 = Some 2 \<and>
   snd (snd (on_event no_embed_eq
     (init [0, 1, 2] None (Some (''a'', ''b'', ''c'', ''d'', ''e''))) [] lobby
     \<lparr>message_id = 5, message_channel = lobby\<rparr> [page_a, page_b, page_a] 2
     (ReactionAdd \<lparr>reaction_message_id = 5, reaction_emoji = ''b''\<rparr> 7))) = Active 1 \<and>
   snd (snd (on_event no_embed_eq
     (init [0, 1, 2] None (Some (''a'', ''b'', ''c'', ''d'', ''e''))) [] lobby
     \<lparr>message_id = 5, message_channel = lobby\<rparr> [page_a, page_b, page_a] 2
     (ReactionAdd \<lparr>reaction_message_id = 5, reaction_emoji = ''c''\<rparr> 7))) = Active 2"
proof -
  let ?ce = "(''a'', ''b'', ''c'', ''d'', ''e'')"
  let ?self = "init [0, 1, 2] None (Some ?ce)"
  let ?live = "\<lparr>message_id = 5, message_channel = lobby\<rparr>"
  let ?h = "[page_a, page_b, page_a]"
  let ?b = "\<lparr>reaction_message_id = 5, reaction_emoji = ''b''\<rparr>"
  let ?c = "\<lparr>reaction_message_id = 5, reaction_emoji = ''c''\<rparr>"
  have i0: "(0::int) \<le> 0" and i1: "(0::int) \<le> 1" and i2: "(0::int) \<le> 2"
    and b0: "(0::int) \<le> 2" and b1: "(1::int) \<le> 2" and b2: "(2::int) \<le> 2"
    by simp_all
  note at0 = navigation_clamps [OF i0 b0, where ?e0.0 = "''a''" and ?e1.0 = "''b''"
      and ?e2.0 = "''c''" and ?e3.0 = "''d''" and ?e4.0 = "''e''"]
  note at1 = navigation_clamps [OF i1 b1, where ?e0.0 = "''a''" and ?e1.0 = "''b''"
      and ?e2.0 = "''c''" and ?e3.0 = "''d''" and ?e4.0 = "''e''"]
  note at2 = navigation_clamps [OF i2 b2, where ?e0.0 = "''a''" and ?e1.0 = "''b''"
      and ?e2.0 = "''c''" and ?e3.0 = "''d''" and ?e4.0 = "''e''"]
  have ne: "''b'' \<noteq> ''a''" "''c'' \<notin> {''a'', ''b''}" "''d'' \<notin> {''a'', ''b'', ''c''}"
    by simp_all
  from at0 [where emoji = "''b''"] ne have l1: "load_page_index ?ce ''b'' 0 2 = Some 0"
    by simp
  from at2 [where emoji = "''b''"] ne have l2: "load_page_index ?ce ''b'' 2 2 = Some 1"
    by simp
  from at2 [where emoji = "''c''"] ne have l3: "load_page_index ?ce ''c'' 2 2 = Some 2"
    by simp
  from at1 [where emoji = "''c''"] ne have l4: "load_page_index ?ce ''c'' 1 2 = Some 2"
    by simp
  from at1 [where emoji = "''a''"] have l5: "load_page_index ?ce ''a'' 1 2 = Some 0"
    by simp
  from at1 [where emoji = "''d''"] ne have l6: "load_page_index ?ce ''d'' 1 2 = Some 2"
    by simp
  have li: "(2::int) = int (length (pages ?self)) - 1"
    and ce: "control_emojis ?self = ?ce"
    and rb: "reaction_emoji ?b = ''b''" and rc: "reaction_emoji ?c = ''c''"
    and kb: "check ?self ?live [] ?b 7" and kc: "check ?self ?live [] ?c 7"
    by (simp_all add: init_def check_def)
  note final_conjunct = conjunct2 [THEN conjunct2, THEN conjunct2, THEN conjunct2, THEN conjunct2,
      THEN conjunct2]
  from li ce rb l2 have pb: "2 = int (length (pages ?self)) - 1 \<and>
      control_emojis ?self = ?ce \<and> reaction_emoji ?b = ''b'' \<and>
      load_page_index ?ce ''b'' 2 2 = Some 1"
    by (intro conjI)
  have "\<exists>acts h'. turn_page no_embed_eq ?self lobby ?live ?h 2 ?b 7 = (acts, h', Active 1) \<and>
      (check ?self ?live [] ?b 7 \<longrightarrow>
         on_event no_embed_eq ?self [] lobby ?live ?h 2 (ReactionAdd ?b 7) =
           (acts, h', Active 1) \<and>
         run_loop no_embed_eq ?self [] lobby ?live ?h 2 (ReactionAdd ?b 7 # []) =
           (case run_loop no_embed_eq ?self [] lobby ?live h' 1 [] of
              (acts', h'', s) \<Rightarrow> (acts @ acts', h'', s)))"
    by (rule at2 [where emoji = "''b''", THEN final_conjunct, rule_format, OF pb])
  with kb have
    "\<exists>acts h'. on_event no_embed_eq ?self [] lobby ?live ?h 2 (ReactionAdd ?b 7) =
        (acts, h', Active 1)"
    by blast
  then have s1: "snd (snd (on_event no_embed_eq ?self [] lobby ?live ?h 2 (ReactionAdd ?b 7))) =
      Active 1"
    by auto
  from li ce rc l3 have pc: "2 = int (length (pages ?self)) - 1 \<and>
      control_emojis ?self = ?ce \<and> reaction_emoji ?c = ''c'' \<and>
      load_page_index ?ce ''c'' 2 2 = Some 2"
    by (intro conjI)
  have "\<exists>acts h'. turn_page no_embed_eq ?self lobby ?live ?h 2 ?c 7 = (acts, h', Active 2) \<and>
      (check ?self ?live [] ?c 7 \<longrightarrow>
         on_event no_embed_eq ?self [] lobby ?live ?h 2 (ReactionAdd ?c 7) =
           (acts, h', Active 2) \<and>
         run_loop no_embed_eq ?self [] lobby ?live ?h 2 (ReactionAdd ?c 7 # []) =
           (case run_loop no_embed_eq ?self [] lobby ?live h' 2 [] of
              (acts', h'', s) \<Rightarrow> (acts @ acts', h'', s)))"
    by (rule at2 [where emoji = "''c''", THEN final_conjunct, rule_format, OF pc])
  with kc have
    "\<exists>acts h'. on_event no_embed_eq ?self [] lobby ?live ?h 2 (ReactionAdd ?c 7) =
        (acts, h', Active 2)"
    by blast
  then have s2: "snd (snd (on_event no_embed_eq ?self [] lobby ?live ?h 2 (ReactionAdd ?c 7))) =
      Active 2"
    by auto
  from l1 l2 l3 l4 l5 l6 s1 s2 show ?thesis
    by (intro conjI)
qed

text \<open>
  Claim C8: a reaction whose emoji is not one of the five controls, or whose user is not
  in a non-empty list of permitted users, or whose message is not the session's live
  message, leaves the session \<open>Active\<close> at the same page index, with no call to the
  platform and the heap as it was; the loop goes on with the next event.
\<close>

theorem rejected_event_ignored:
  assumes "reaction_emoji r \<notin> set (emoji_list (control_emojis self)) \<or>
           (users \<noteq> [] \<and> u \<notin> set users) \<or>
           reaction_message_id r \<noteq> message_id live"
  shows "on_event embed_eq self users ch live h i (ReactionAdd r u) = ([], h, Active i) \<and>
         run_loop embed_eq self users ch live h i (ReactionAdd r u # evs) =
           run_loop embed_eq self users ch live h i evs"
proof -
  from assms have "\<not> check self live users r u"
    by (auto simp: check_def)
  then have "on_event embed_eq self users ch live h i (ReactionAdd r u) = ([], h, Active i)"
    by (simp add: on_event_def)
  then show ?thesis
    by (simp split: prod.splits)
qed

theorem rejected_event_ignored_witness:
  "(7::nat) \<notin> set [1, 2] \<and>
   on_event no_embed_eq (init [0, 1] None None) [1, 2] lobby
     \<lparr>message_id = 5, message_channel = lobby\<rparr> [page_a, page_b] 1
     (ReactionAdd \<lparr>reaction_message_id = 5, reaction_emoji = [CHR 0xE2, CHR 0x96, CHR 0xB6]\<rparr> 7) =
   ([], [page_a, page_b], Active 1)"
proof -
  have u: "(7::nat) \<notin> set [1, 2]" by simp
  then have "reaction_emoji \<lparr>reaction_message_id = 5, reaction_emoji = [CHR 0xE2, CHR 0x96, CHR 0xB6]\<rparr>
        \<notin> set (emoji_list (control_emojis (init [0, 1] None None))) \<or>
      ([1, 2] \<noteq> [] \<and> (7::nat) \<notin> set [1, 2]) \<or>
      reaction_message_id \<lparr>reaction_message_id = 5, reaction_emoji = [CHR 0xE2, CHR 0x96, CHR 0xB6]\<rparr>
        \<noteq> message_id \<lparr>message_id = 5, message_channel = lobby\<rparr>"
    by simp
  from rejected_event_ignored [OF this, of no_embed_eq lobby "[page_a, page_b]" 1 "[]"] u
  show ?thesis by blast
qed

text \<open>
  Claim C4, as the code has it: a reaction whose emoji is outside the five controls is
  refused by \<open>check\<close> and ignored, so the session stays \<open>Active\<close> and nothing is deleted.
  An accepted reaction that matches none of the first four controls carries the fifth,
  the close control: it deletes the live message and closes the session. A reaction
  closes the session only in that way.
\<close>

theorem close_control_closes:
  assumes "control_emojis self = (e0, e1, e2, e3, e4)"
  shows
   "(reaction_emoji r \<notin> {e0, e1, e2, e3, e4} \<longrightarrow>
       on_event embed_eq self users ch live h i (ReactionAdd r u) = ([], h, Active i)) \<and>
    (check self live users r u \<and> reaction_emoji r \<notin> {e0, e1, e2, e3} \<longrightarrow>
       reaction_emoji r = e4 \<and>
       on_event embed_eq self users ch live h i (ReactionAdd r u) =
         ([DeleteMessage (message_id live)], h, Closed)) \<and>
    (\<forall>acts h'. on_event embed_eq self users ch live h i (ReactionAdd r u) = (acts, h', Closed)
       \<longrightarrow> check self live users r u \<and> reaction_emoji r = e4 \<and>
           acts = [DeleteMessage (message_id live)] \<and> h' = h)"
proof -
  have a: "reaction_emoji r \<notin> {e0, e1, e2, e3, e4} \<Longrightarrow> \<not> check self live users r u"
    using assms by (auto simp: check_def)
  have b: "reaction_emoji r \<notin> {e0, e1, e2, e3} \<Longrightarrow>
      turn_page embed_eq self ch live h i r u = ([DeleteMessage (message_id live)], h, Closed)"
    using assms by (simp add: turn_page_def)
  have c: "check self live users r u \<Longrightarrow> reaction_emoji r \<in> {e0, e1, e2, e3, e4}"
    using assms by (auto simp: check_def split: if_splits)
  have d: "turn_page embed_eq self ch live h i r u = (acts, h', Closed) \<Longrightarrow>
      reaction_emoji r \<notin> {e0, e1, e2, e3} \<and> acts = [DeleteMessage (message_id live)] \<and> h' = h"
    for acts h'
    using assms by (auto simp: turn_page_def Let_def split: if_splits option.splits prod.splits)
  from a have 1: "reaction_emoji r \<notin> {e0, e1, e2, e3, e4} \<longrightarrow>
       on_event embed_eq self users ch live h i (ReactionAdd r u) = ([], h, Active i)"
    by (simp add: on_event_def)
  from b c have 2: "check self live users r u \<and> reaction_emoji r \<notin> {e0, e1, e2, e3} \<longrightarrow>
       reaction_emoji r = e4 \<and>
       on_event embed_eq self users ch live h i (ReactionAdd r u) =
         ([DeleteMessage (message_id live)], h, Closed)"
    by (auto simp: on_event_def)
  from c d have 3: "\<forall>acts h'.
       on_event embed_eq self users ch live h i (ReactionAdd r u) = (acts, h', Closed)
       \<longrightarrow> check self live users r u \<and> reaction_emoji r = e4 \<and>
           acts = [DeleteMessage (message_id live)] \<and> h' = h"
    by (auto simp: on_event_def split: if_splits)
  from 1 2 3 show ?thesis by blast
qed

theorem close_control_closes_witness:
  "on_event no_embed_eq (init [0, 1] None (Some (''a'', ''b'', ''c'', ''d'', ''e''))) [] lobby
     \<lparr>message_id = 5, message_channel = lobby\<rparr> [page_a, page_b] 1
     (ReactionAdd \<lparr>reaction_message_id = 5, reaction_emoji = ''e''\<rparr> 7) =
   ([DeleteMessage 5], [page_a, page_b], Closed) \<and>
   on_event no_embed_eq (init [0, 1] None (Some (''a'', ''b'', ''c'', ''d'', ''e''))) [] lobby
     \<lparr>message_id = 5, message_channel = lobby\<rparr> [page_a, page_b] 1
     (ReactionAdd \<lparr>reaction_message_id = 5, reaction_emoji = ''x''\<rparr> 7) =
   ([], [page_a, page_b], Active 1)"
proof -
  let ?self = "init [0, 1] None (Some (''a'', ''b'', ''c'', ''d'', ''e''))"
  let ?live = "\<lparr>message_id = 5, message_channel = lobby\<rparr>"
  let ?e = "\<lparr>reaction_message_id = 5, reaction_emoji = ''e''\<rparr>"
  let ?x = "\<lparr>reaction_message_id = 5, reaction_emoji = ''x''\<rparr>"
  have ce: "control_emojis ?self = (''a'', ''b'', ''c'', ''d'', ''e'')"
    by (simp add: init_def)
  have ok: "check ?self ?live [] ?e 7"
    by (simp add: check_def init_def)
  have ne: "reaction_emoji ?e \<notin> {''a'', ''b'', ''c'', ''d''}"
    by simp
  have nx: "reaction_emoji ?x \<notin> {''a'', ''b'', ''c'', ''d'', ''e''}"
    by simp
  have m: "message_id ?live = 5"
    by simp
  note t = close_control_closes [OF ce, where users = "[]" and live = ?live and u = 7
      and embed_eq = no_embed_eq and ch = lobby and h = "[page_a, page_b]" and i = 1]
  from t [where r = ?e] ok ne have
    "on_event no_embed_eq ?self [] lobby ?live [page_a, page_b] 1 (ReactionAdd ?e 7) =
       ([DeleteMessage (message_id ?live)], [page_a, page_b], Closed)"
    by blast
  moreover from t [where r = ?x] nx have
    "on_event no_embed_eq ?self [] lobby ?live [page_a, page_b] 1 (ReactionAdd ?x 7) =
       ([], [page_a, page_b], Active 1)"
    by blast
  ultimately show ?thesis
    unfolding m by (rule conjI)
qed

text \<open>
  The claim as the spec states it fails: with the default controls, two pages and no
  restriction on users, a reaction \<open>x\<close> on the live message leaves the session \<open>Active\<close>
  at page 0 and the message is not deleted.
\<close>

theorem stray_emoji_counterexample:
  "outcome (run no_embed_eq 7 (init [0, 1] None None) [page_a, page_b] [] (Some lobby)
     [ReactionAdd \<lparr>reaction_message_id = 7, reaction_emoji = ''x''\<rparr> 42]) = Active 0 \<and>
   DeleteMessage 7 \<notin> set (actions (run no_embed_eq 7 (init [0, 1] None None)
     [page_a, page_b] [] (Some lobby)
     [ReactionAdd \<lparr>reaction_message_id = 7, reaction_emoji = ''x''\<rparr> 42]))"
  by (simp add: run_eval)

text \<open>
  Claim C5, as the code has it: with exactly one page and a channel to send to, \<open>run\<close>
  sends one message, which carries the page as the caller supplied it, without a position
  marker; it adds no reaction, makes no other call and returns at once, whatever events
  follow.
\<close>

theorem single_page_run:
  assumes "pages self = [p]" and "resolve_channel self channel_arg = Inr ch"
  shows "run embed_eq new_id self h users channel_arg events =
     \<lparr>actions = [Send ch (h ! p)],
      paginator_after =
        self\<lparr>current_embed := Some p,
             message := Some \<lparr>message_id = new_id, message_channel = ch\<rparr>\<rparr>,
      heap_after = h, outcome = Closed\<rparr>"
  using assms by (simp add: run_def)

theorem single_page_run_witness:
  "run no_embed_eq 7 (init [0] None None) [page_a] [] (Some lobby) [TimeoutExpired] =
     \<lparr>actions = [Send lobby page_a],
      paginator_after =
        (init [0] None None)\<lparr>current_embed := Some 0,
             message := Some \<lparr>message_id = 7, message_channel = lobby\<rparr>\<rparr>,
      heap_after = [page_a], outcome = Closed\<rparr>"
proof -
  have p: "pages (init [0] None None) = [0]"
    by (simp add: init_def)
  have c: "resolve_channel (init [0] None None) (Some lobby) = Inr lobby"
    by (simp add: resolve_channel_def)
  from single_page_run [OF p c, of no_embed_eq 7 "[page_a]" "[]" "[TimeoutExpired]"]
  show ?thesis by simp
qed

text \<open>
  The claim as the spec states it fails: the single page is sent as it is, with its
  empty footer, while the formatted page would carry the footer \<open>(1/1)\<close>.
\<close>

theorem single_page_unformatted_counterexample:
  "actions (run no_embed_eq 7 (init [0] None None) [page_a] [] (Some lobby) []) =
     [Send lobby \<lparr>footer_text = None, footer_icon_url = None, content = ''A''\<rparr>] \<and>
   formatted_pages no_embed_eq [page_a] [0] =
     ([page_a, \<lparr>footer_text = Some ''(1/1)'', footer_icon_url = None, content = ''A''\<rparr>], [1])"
  by (simp add: run_eval)

lemma run_outcome:
  "outcome (run embed_eq new_id self h users channel_arg events) = Failed TypeError \<longleftrightarrow>
   channel_arg = None \<and> message self = None"
proof (cases "resolve_channel self channel_arg")
  case (Inl e)
  then show ?thesis
    by (auto simp: run_def resolve_channel_def split: if_splits)
next
  case (Inr ch)
  then have n: "\<not> (channel_arg = None \<and> message self = None)"
    by (auto simp: resolve_channel_def split: if_splits)
  show ?thesis
  proof (cases "pages self")
    case Nil
    with Inr n show ?thesis by (simp add: run_def)
  next
    case (Cons p0 ps)
    show ?thesis
    proof (cases "ps = []")
      case True
      with Inr Cons n show ?thesis by (simp add: run_def)
    next
      case False
      let ?self2 = "self\<lparr>current_embed := Some p0,
        message := Some \<lparr>message_id = new_id, message_channel = ch\<rparr>\<rparr>"
      obtain h1 fp where f: "formatted_pages embed_eq h (pages self) = (h1, fp)"
        by (cases "formatted_pages embed_eq h (pages self)")
      obtain acts h2 s where
        l: "run_loop embed_eq ?self2 users ch \<lparr>message_id = new_id, message_channel = ch\<rparr>
              h1 0 events = (acts, h2, s)"
        by (cases "run_loop embed_eq ?self2 users ch
              \<lparr>message_id = new_id, message_channel = ch\<rparr> h1 0 events") auto
      have "0 \<le> int (length (pages ?self2)) - 1"
        using Cons by simp
      from run_loop_not_failed [OF _ this l] have "s \<noteq> Failed TypeError"
        by auto
      with Inr Cons False f l n show ?thesis
        by (auto simp: run_def Let_def split: option.splits)
    qed
  qed
qed


lemma run_not_failed:
  assumes "resolve_channel self channel_arg = Inr ch" and "pages self \<noteq> []"
  shows "\<exists>e rest. actions (run embed_eq new_id self h users channel_arg events) =
           Send ch e # rest"
    and "outcome (run embed_eq new_id self h users channel_arg events) \<noteq> Failed err"
proof -
  from assms(2) obtain p0 ps where c: "pages self = p0 # ps"
    by (cases "pages self") auto
  let ?live = "\<lparr>message_id = new_id, message_channel = ch\<rparr>"
  let ?self2 = "self\<lparr>current_embed := Some p0, message := Some ?live\<rparr>"
  obtain h1 fp where f: "formatted_pages embed_eq h (pages self) = (h1, fp)"
    by (cases "formatted_pages embed_eq h (pages self)")
  with length_formatted_pages [of embed_eq h "pages self"] c
  have "length fp = Suc (length ps)" by simp
  then have i: "py_index fp 0 = Some (fp ! 0)"
    by (simp add: py_index_def)
  obtain acts h2 s where l: "run_loop embed_eq ?self2 users ch ?live h1 0 events = (acts, h2, s)"
    by (cases "run_loop embed_eq ?self2 users ch ?live h1 0 events") auto
  have "0 \<le> int (length (pages ?self2)) - 1"
    using c by simp
  from run_loop_not_failed [OF _ this l] have s: "s \<noteq> Failed err"
    by auto
  from assms(1) c f i l show
    "\<exists>e rest. actions (run embed_eq new_id self h users channel_arg events) = Send ch e # rest"
    by (cases "ps = []") (simp_all add: run_def)
  from assms(1) c f i l s show
    "outcome (run embed_eq new_id self h users channel_arg events) \<noteq> Failed err"
    by (cases "ps = []") (simp_all add: run_def)
qed

text \<open>
  Claim C7: \<open>run\<close> raises the \<open>TypeError\<close> of the missing channel exactly when the channel
  argument is absent and the paginator holds no message; it has then made no call to the
  platform and changed nothing. With the channel argument absent and a message held, the
  first call sends to the channel of that message, and a paginator that has a page
  raises no error at all.
\<close>

theorem missing_channel_error:
  "(outcome (run embed_eq new_id self h users channel_arg events) = Failed TypeError \<longleftrightarrow>
      channel_arg = None \<and> message self = None) \<and>
   (channel_arg = None \<and> message self = None \<longrightarrow>
      run embed_eq new_id self h users channel_arg events =
        \<lparr>actions = [], paginator_after = self, heap_after = h,
         outcome = Failed TypeError\<rparr>) \<and>
   (\<forall>m. channel_arg = None \<and> message self = Some m \<and> pages self \<noteq> [] \<longrightarrow>
      (\<exists>e rest. actions (run embed_eq new_id self h users channel_arg events) =
         Send (message_channel m) e # rest) \<and>
      (\<forall>err. outcome (run embed_eq new_id self h users channel_arg events) \<noteq> Failed err))"
proof -
  have a: "channel_arg = None \<and> message self = None \<longrightarrow>
      run embed_eq new_id self h users channel_arg events =
        \<lparr>actions = [], paginator_after = self, heap_after = h,
         outcome = Failed TypeError\<rparr>"
    by (simp add: run_def resolve_channel_def)
  have b: "\<forall>m. channel_arg = None \<and> message self = Some m \<and> pages self \<noteq> [] \<longrightarrow>
      (\<exists>e rest. actions (run embed_eq new_id self h users channel_arg events) =
         Send (message_channel m) e # rest) \<and>
      (\<forall>err. outcome (run embed_eq new_id self h users channel_arg events) \<noteq> Failed err)"
  proof (intro allI impI)
    fix m
    assume p: "channel_arg = None \<and> message self = Some m \<and> pages self \<noteq> []"
    then have r: "resolve_channel self channel_arg = Inr (message_channel m)"
      by (simp add: resolve_channel_def)
    from p have n: "pages self \<noteq> []" by simp
    from run_not_failed [OF r n] show
      "(\<exists>e rest. actions (run embed_eq new_id self h users channel_arg events) =
         Send (message_channel m) e # rest) \<and>
       (\<forall>err. outcome (run embed_eq new_id self h users channel_arg events) \<noteq> Failed err)"
      by blast
  qed
  from run_outcome a b show ?thesis by blast
qed

theorem missing_channel_error_witness:
  "run no_embed_eq 7 (init [0, 1] None None) [page_a, page_b] [] None [] =
     \<lparr>actions = [], paginator_after = init [0, 1] None None, heap_after = [page_a, page_b],
      outcome = Failed TypeError\<rparr> \<and>
   (\<exists>e rest. actions (run no_embed_eq 7
       (init [0, 1] (Some \<lparr>message_id = 3, message_channel = lobby\<rparr>) None)
       [page_a, page_b] [] None []) = Send lobby e # rest) \<and>
   outcome (run no_embed_eq 7
       (init [0, 1] (Some \<lparr>message_id = 3, message_channel = lobby\<rparr>) None)
       [page_a, page_b] [] None []) \<noteq> Failed TypeError"
proof -
  let ?m = "\<lparr>message_id = 3, message_channel = lobby\<rparr>"
  have 1: "(None :: channel option) = None \<and> message (init [0, 1] None None) = None"
    by (simp add: init_def)
  have 2: "(None :: channel option) = None \<and> message (init [0, 1] (Some ?m) None) = Some ?m \<and>
      pages (init [0, 1] (Some ?m) None) \<noteq> []"
    by (simp add: init_def)
  have 3: "message_channel ?m = lobby"
    by simp
  note a = missing_channel_error [where channel_arg = None and self = "init [0, 1] None None"
      and embed_eq = no_embed_eq and new_id = 7 and h = "[page_a, page_b]" and users = "[]"
      and events = "[]"]
  note b = missing_channel_error [where channel_arg = None
      and self = "init [0, 1] (Some ?m) None"
      and embed_eq = no_embed_eq and new_id = 7 and h = "[page_a, page_b]" and users = "[]"
      and events = "[]"]
  from a 1 have "run no_embed_eq 7 (init [0, 1] None None) [page_a, page_b] [] None [] =
     \<lparr>actions = [], paginator_after = init [0, 1] None None, heap_after = [page_a, page_b],
      outcome = Failed TypeError\<rparr>"
    by blast
  moreover from b 2 have
    "(\<exists>e rest. actions (run no_embed_eq 7 (init [0, 1] (Some ?m) None)
       [page_a, page_b] [] None []) = Send (message_channel ?m) e # rest) \<and>
     outcome (run no_embed_eq 7 (init [0, 1] (Some ?m) None)
       [page_a, page_b] [] None []) \<noteq> Failed TypeError"
    by blast
  ultimately show ?thesis
    unfolding 3 by blast
qed

subsection \<open>Properties of the formatter\<close>

text \<open>
  Claim C6: \<open>formatted_pages\<close> returns as many pages as it was given; every object that
  existed before the call is at its address with the value it had, footer text and icon
  included; and every page of the result is a new object.
\<close>

theorem formatted_pages_no_side_effect:
  "length (snd (formatted_pages embed_eq h ps)) = length ps \<and>
   take (length h) (fst (formatted_pages embed_eq h ps)) = h \<and>
   (\<forall>p < length h. fst (formatted_pages embed_eq h ps) ! p = h ! p) \<and>
   (\<forall>q \<in> set (snd (formatted_pages embed_eq h ps)). length h \<le> q)"
proof -
  obtain h' out where f: "formatted_pages embed_eq h ps = (h', out)"
    by (cases "formatted_pages embed_eq h ps")
  from formatted_pages_frame_aux [OF f] have
    l: "length out = length ps" and t: "take (length h) h' = h"
    and a: "\<forall>q \<in> set out. length h \<le> q"
    by simp_all
  have "h' ! p = h ! p" if "p < length h" for p
  proof -
    from that have "take (length h) h' ! p = h' ! p" by simp
    with t show ?thesis by simp
  qed
  with f l t a show ?thesis by simp
qed

theorem formatted_pages_no_side_effect_witness:
  "formatted_pages no_embed_eq [page_a, page_b] [0, 1] =
     ([page_a, page_b,
       \<lparr>footer_text = Some ''(1/2)'', footer_icon_url = None, content = ''A''\<rparr>,
       \<lparr>footer_text = Some ''B - (2/2)'', footer_icon_url = Some ''icon'', content = ''B''\<rparr>],
      [2, 3]) \<and>
   take (length [page_a, page_b]) (fst (formatted_pages no_embed_eq [page_a, page_b] [0, 1])) =
     [page_a, page_b]"
proof -
  have "formatted_pages no_embed_eq [page_a, page_b] [0, 1] =
     ([page_a, page_b,
       \<lparr>footer_text = Some ''(1/2)'', footer_icon_url = None, content = ''A''\<rparr>,
       \<lparr>footer_text = Some ''B - (2/2)'', footer_icon_url = Some ''icon'', content = ''B''\<rparr>],
      [2, 3])"
    by (simp add: formatted_pages_def deepcopy_def format_page_def set_footer_def marker_def
        str_nat.simps page_a_def page_b_def no_embed_eq_def)
  with formatted_pages_no_side_effect [of no_embed_eq "[page_a, page_b]" "[0, 1]"]
  show ?thesis by blast
qed

text \<open>
  Claim C1 at a list that holds the same page object twice, \<open>[e, e]\<close> with \<open>e\<close> a page
  without footer: \<open>deepcopy\<close> copies the object once, the loop visits the copy twice, and
  \<open>pages.index(page)\<close> is 0 both times. Both positions of the result hold the one object
  with the footer \<open>(1/2) - (1/2)\<close>; no position carries the marker \<open>(2/2)\<close>. This holds for
  every equality of embeds.
\<close>

theorem formatted_pages_shared_page:
  "formatted_pages embed_eq [page_a] [0, 0] =
     ([page_a,
       \<lparr>footer_text = Some ''(1/2) - (1/2)'', footer_icon_url = None, content = ''A''\<rparr>],
      [1, 1])"
  by (simp add: formatted_pages_def deepcopy_def format_page_def set_footer_def marker_def
      str_nat.simps page_a_def)

text \<open>
  The first branch of the loop looks at the footer text alone: a page whose footer has an
  icon and no text gets the marker as its text and loses the icon.
\<close>

lemma formatted_pages_icon_only:
  "formatted_pages embed_eq
     [\<lparr>footer_text = None, footer_icon_url = Some ''icon'', content = ''A''\<rparr>] [0] =
     ([\<lparr>footer_text = None, footer_icon_url = Some ''icon'', content = ''A''\<rparr>,
       \<lparr>footer_text = Some ''(1/1)'', footer_icon_url = None, content = ''A''\<rparr>],
      [1])"
  by (simp add: formatted_pages_def deepcopy_def format_page_def set_footer_def marker_def
      str_nat.simps)

text \<open>
  Where the pages of the list are different objects and an embed is equal to itself
  only, the formatter does what the spec says: position \<open>i\<close> of the result is a new object
  that holds page \<open>i\<close> with the marker of \<open>i + 1\<close>.
\<close>

lemma footer_icon_url_same:
  "footer_icon_url e = icon \<Longrightarrow>
   e\<lparr>footer_text := txt, footer_icon_url := icon\<rparr> = e\<lparr>footer_text := txt\<rparr>"
  by (cases e) simp

lemma format_page_with_marker:
  "format_page eq cs q g = g[q := with_marker (g ! q) (index_of eq g cs q) (length cs)]"
  by (simp add: format_page_def with_marker_def set_footer_def Let_def footer_icon_url_same
      split: option.splits)

lemma index_of_less: "q \<in> set cs \<Longrightarrow> index_of eq g cs q < length cs"
  by (induction cs) auto

lemma index_of_nth:
  "distinct cs \<Longrightarrow> i < length cs \<Longrightarrow> index_of no_embed_eq g cs (cs ! i) = i"
proof (induction cs arbitrary: i)
  case Nil
  then show ?case by simp
next
  case (Cons c cs)
  show ?case
  proof (cases i)
    case 0
    then show ?thesis by simp
  next
    case (Suc j)
    with Cons.prems have "cs ! j \<in> set cs" by simp
    with Cons.prems have "c \<noteq> cs ! j" by auto
    with Cons Suc show ?thesis by (simp add: no_embed_eq_def)
  qed
qed

lemma index_of_heap: "index_of no_embed_eq g cs q = index_of no_embed_eq g' cs q"
  by (induction cs) (simp_all add: no_embed_eq_def)

lemma fold_format_page_nth:
  assumes "distinct qs" and "\<forall>q \<in> set qs. q < length g" and "a < length g"
  shows "fold (format_page no_embed_eq cs) qs g ! a =
     (if a \<in> set qs then with_marker (g ! a) (index_of no_embed_eq g cs a) (length cs)
      else g ! a)"
  using assms
proof (induction qs arbitrary: g)
  case Nil
  then show ?case by simp
next
  case (Cons q qs)
  let ?g = "format_page no_embed_eq cs q g"
  have len: "length ?g = length g"
    by (rule length_format_page)
  from Cons.prems have d: "distinct qs" and n: "q \<notin> set qs" by simp_all
  from Cons.prems len have v: "\<forall>q \<in> set qs. q < length ?g" and a: "a < length ?g"
    by simp_all
  have ix: "index_of no_embed_eq ?g cs a = index_of no_embed_eq g cs a"
    by (rule index_of_heap)
  from Cons.prems have q: "q < length g" by simp
  have g: "?g ! a = (if a = q then with_marker (g ! q) (index_of no_embed_eq g cs q) (length cs)
      else g ! a)"
    using q Cons.prems(3) by (simp add: format_page_with_marker)
  from Cons.IH [OF d v a] have
    "fold (format_page no_embed_eq cs) (q # qs) g ! a =
       (if a \<in> set qs then with_marker (?g ! a) (index_of no_embed_eq ?g cs a) (length cs)
        else ?g ! a)"
    by simp
  with g ix n show ?case by auto
qed

lemma deepcopy_pages_distinct:
  assumes "distinct ps" and "\<forall>p \<in> set ps. p < length h"
    and "set ps \<inter> fst ` set memo = {}"
  shows "deepcopy_pages memo h ps =
     (h @ map (nth h) ps, [length h ..< length h + length ps])"
  using assms
proof (induction ps arbitrary: memo h)
  case Nil
  then show ?case by simp
next
  case (Cons p ps)
  from Cons.prems(3) have "p \<notin> fst ` set memo" by auto
  then have none: "map_of memo p = None"
    by (simp add: map_of_eq_None_iff)
  let ?h = "h @ [h ! p]" and ?memo = "(p, length h) # memo"
  from Cons.prems have d: "distinct ps" and v: "\<forall>q \<in> set ps. q < length ?h"
    and m: "set ps \<inter> fst ` set ?memo = {}"
    by auto
  from Cons.prems(2) have same: "map (nth ?h) ps = map (nth h) ps"
    by (simp add: nth_append)
  have u: "[length h ..< length h + length (p # ps)] =
      length h # [length ?h ..< length ?h + length ps]"
    by (subst upt_rec) simp
  from Cons.IH [OF d v m] same have
    "deepcopy_pages ?memo ?h ps =
       (h @ h ! p # map (nth h) ps, [length ?h ..< length ?h + length ps])"
    by simp
  with none show ?case
    unfolding u by simp
qed

lemma formatted_pages_distinct:
  assumes "distinct ps" and "\<forall>p \<in> set ps. p < length h" and "i < length ps"
  shows "snd (formatted_pages no_embed_eq h ps) ! i = length h + i \<and>
     fst (formatted_pages no_embed_eq h ps) ! (length h + i) =
       with_marker (h ! (ps ! i)) i (length ps)"
proof -
  let ?cs = "[length h ..< length h + length ps]" and ?h1 = "h @ map (nth h) ps"
  from assms(1,2) have dc: "deepcopy h ps = (?h1, ?cs)"
    by (simp add: deepcopy_def deepcopy_pages_distinct)
  then have f: "formatted_pages no_embed_eq h ps =
      (fold (format_page no_embed_eq ?cs) ?cs ?h1, ?cs)"
    by (simp add: formatted_pages_def)
  from assms(3) have c: "?cs ! i = length h + i" and m: "length h + i \<in> set ?cs"
    by simp_all
  have "distinct ?cs" and "\<forall>q \<in> set ?cs. q < length ?h1"
    by simp_all
  from fold_format_page_nth [OF this, of "length h + i" ?cs] m assms(3) have
    "fold (format_page no_embed_eq ?cs) ?cs ?h1 ! (length h + i) =
       with_marker (?h1 ! (length h + i)) (index_of no_embed_eq ?h1 ?cs (length h + i))
         (length ?cs)"
    by simp
  moreover from index_of_nth [of ?cs i ?h1] assms(3) have
    "index_of no_embed_eq ?h1 ?cs (length h + i) = i"
    by simp
  moreover from assms(3) have "?h1 ! (length h + i) = h ! (ps ! i)"
    by (simp add: nth_append)
  ultimately show ?thesis using f c by simp
qed

subsection \<open>The chunker and its argument\<close>

text \<open>
  Claim C9, as the code has it: for \<open>max_len \<ge> 1\<close> and a list longer than \<open>max_len\<close> the call
  returns and the caller's list is shorter than it was: it holds the elements after the
  slices that the loop has cut off, at most \<open>max_len\<close> of them, and it is itself the last
  element of the result. For a list no longer than \<open>max_len\<close> the result is the one-element
  list of the caller's own list object, which is unchanged. For \<open>max_len \<le> 0\<close> and a list
  longer than \<open>max_len\<close> the call never returns.
\<close>

theorem generate_sub_lists_reduces_argument:
  "(1 \<le> k \<and> k < int (length xs) \<longrightarrow>
      (\<exists>origin' cs. generate_sub_lists xs k = Some (origin', map Fresh cs @ [Origin]) \<and>
         cs \<noteq> [] \<and> xs = concat cs @ origin' \<and> length origin' < length xs \<and>
         int (length origin') \<le> k \<and>
         contents origin' (last (map Fresh cs @ [Origin])) = origin')) \<and>
   (int (length xs) \<le> k \<longrightarrow> generate_sub_lists xs k = Some (xs, [Origin])) \<and>
   (k \<le> 0 \<and> k < int (length xs) \<longrightarrow> generate_sub_lists xs k = None)"
proof -
  have a: "\<exists>origin' cs. generate_sub_lists xs k = Some (origin', map Fresh cs @ [Origin]) \<and>
         cs \<noteq> [] \<and> xs = concat cs @ origin' \<and> length origin' < length xs \<and>
         int (length origin') \<le> k \<and>
         contents origin' (last (map Fresh cs @ [Origin])) = origin'"
    if "1 \<le> k \<and> k < int (length xs)"
  proof -
    from that have k: "1 \<le> k" and l: "k < int (length xs)" by simp_all
    from generate_sub_lists_returns [OF k, of xs] l obtain rest cs where
      r: "generate_sub_lists xs k = Some (rest, map Fresh cs @ [Origin])"
      and c: "concat cs @ rest = xs" and e: "\<forall>c \<in> set cs. int (length c) = k"
      and b: "int (length rest) \<le> k" and n: "cs \<noteq> []"
      by blast
    from n obtain c cs' where cs: "cs = c # cs'" by (cases cs) auto
    with e k have "0 < length c" by auto
    with c cs have "length rest < length xs" by auto
    with r c b n show ?thesis by auto
  qed
  have b: "int (length xs) \<le> k \<longrightarrow> generate_sub_lists xs k = Some (xs, [Origin])"
    by (simp add: generate_sub_lists_short)
  have c: "k \<le> 0 \<and> k < int (length xs) \<longrightarrow> generate_sub_lists xs k = None"
    by (simp add: generate_sub_lists_diverges)
  from a b c show ?thesis by blast
qed

theorem generate_sub_lists_reduces_argument_witness:
  "generate_sub_lists [1, 2, 3, 4, 5 :: nat] 2 = Some ([5], map Fresh [[1, 2], [3, 4]] @ [Origin]) \<and>
   generate_sub_lists [1, 2 :: nat] 2 = Some ([1, 2], [Origin]) \<and>
   generate_sub_lists [1, 2 :: nat] 0 = None"
proof -
  have r: "generate_sub_lists [1, 2, 3, 4, 5 :: nat] 2 =
      Some ([5], map Fresh [[1, 2], [3, 4]] @ [Origin])"
    by (simp add: generate_sub_lists_def chunk_loop.simps del_to_def slice_to_def slice_stop_def)
  have s: "int (length [1, 2 :: nat]) \<le> 2" by simp
  have d: "(0 :: int) \<le> 0 \<and> 0 < int (length [1, 2 :: nat])" by simp
  from generate_sub_lists_reduces_argument [of 2 "[1, 2 :: nat]"] s
  have "generate_sub_lists [1, 2 :: nat] 2 = Some ([1, 2], [Origin])" by blast
  moreover from generate_sub_lists_reduces_argument [of 0 "[1, 2 :: nat]"] d
  have "generate_sub_lists [1, 2 :: nat] 0 = None" by blast
  ultimately show ?thesis using r by blast
qed

text \<open>
  The claim as stated, for every list longer than \<open>max_len\<close>, fails at \<open>max_len = 0\<close> and a
  list of one element: the list is longer than \<open>max_len\<close>, the call never returns, and the
  deletion of the loop leaves the list as it is.
\<close>

theorem generate_sub_lists_not_reduced_counterexample:
  "(0 :: int) < int (length [0 :: nat]) \<and> generate_sub_lists [0 :: nat] 0 = None \<and>
   del_to [0 :: nat] 0 = [0]"
proof -
  have "generate_sub_lists [0 :: nat] 0 = None"
    by (rule generate_sub_lists_diverges) simp_all
  then show ?thesis
    by (simp add: del_to_def slice_stop_def)
qed

lemma del_to_zero: "del_to xs 0 = xs"
  by (simp add: del_to_def slice_stop_def)

lemma length_del_to_neg: "k < 0 \<Longrightarrow> length (del_to xs k) = min (length xs) (nat (- k))"
  by (auto simp: del_to_def slice_stop_def)

lemma del_to_idem: "k \<le> 0 \<Longrightarrow> del_to (del_to xs k) k = del_to xs k"
  by (auto simp: del_to_def slice_stop_def)

text \<open>
  Claim C10, as the code has it: the call returns for every list when \<open>max_len \<ge> 1\<close>, and
  for \<open>max_len \<le> 0\<close> and a non-empty list it never returns. With \<open>max_len = 0\<close> an
  iteration removes nothing. With \<open>max_len < 0\<close> an iteration leaves the last \<open>-max_len\<close>
  elements, so the first iteration can remove elements; from the second iteration on
  nothing is removed.
\<close>

theorem generate_sub_lists_termination:
  "(1 \<le> k \<longrightarrow> generate_sub_lists xs k \<noteq> None) \<and>
   (k \<le> 0 \<and> xs \<noteq> [] \<longrightarrow>
      generate_sub_lists xs k = None \<and>
      (k = 0 \<longrightarrow> del_to xs k = xs) \<and>
      (k < 0 \<longrightarrow> length (del_to xs k) = min (length xs) (nat (- k))) \<and>
      del_to (del_to xs k) k = del_to xs k)"
proof -
  have "generate_sub_lists xs k \<noteq> None" if "1 \<le> k"
    using generate_sub_lists_returns [OF that, of xs] by auto
  moreover have "generate_sub_lists xs k = None" if "k \<le> 0" and "xs \<noteq> []"
  proof -
    from that have "k < int (length xs)" by (cases xs) simp_all
    with that(1) show ?thesis by (rule generate_sub_lists_diverges)
  qed
  ultimately show ?thesis
    by (auto simp: del_to_zero length_del_to_neg del_to_idem)
qed

theorem generate_sub_lists_termination_witness:
  "generate_sub_lists [1, 2, 3 :: nat] 2 \<noteq> None \<and>
   generate_sub_lists [1, 2, 3 :: nat] (- 1) = None \<and>
   generate_sub_lists [1, 2, 3 :: nat] 0 = None \<and>
   del_to (del_to [1, 2, 3 :: nat] (- 1)) (- 1) = del_to [1, 2, 3 :: nat] (- 1)"
proof -
  have n: "[1, 2, 3 :: nat] \<noteq> []" by simp
  have a: "(1 :: int) \<le> 2" and b: "(- 1 :: int) \<le> 0" and c: "(0 :: int) \<le> 0" by simp_all
  from generate_sub_lists_termination [of 2 "[1, 2, 3 :: nat]"] a
  have "generate_sub_lists [1, 2, 3 :: nat] 2 \<noteq> None" by blast
  moreover from generate_sub_lists_termination [of "- 1" "[1, 2, 3 :: nat]"] b n
  have "generate_sub_lists [1, 2, 3 :: nat] (- 1) = None \<and>
      del_to (del_to [1, 2, 3 :: nat] (- 1)) (- 1) = del_to [1, 2, 3 :: nat] (- 1)" by blast
  moreover from generate_sub_lists_termination [of 0 "[1, 2, 3 :: nat]"] c n
  have "generate_sub_lists [1, 2, 3 :: nat] 0 = None" by blast
  ultimately show ?thesis by blast
qed

text \<open>
  The claim as stated, that for \<open>max_len \<le> 0\<close> no iteration removes an element, fails at
  \<open>max_len = -1\<close> and the list \<open>[1, 2, 3]\<close>: the first iteration appends the slice \<open>[1, 2]\<close>
  and deletes it from the list, which is \<open>[3]\<close> afterwards.
\<close>

theorem negative_max_len_removes_counterexample:
  "(- 1 :: int) \<le> 0 \<and> [1, 2, 3 :: nat] \<noteq> [] \<and>
   slice_to [1, 2, 3 :: nat] (- 1) = [1, 2] \<and> del_to [1, 2, 3 :: nat] (- 1) = [3]"
  by (simp add: del_to_def slice_to_def slice_stop_def)

end
